theory Spec2Isabelle
  imports Main "HOL-Library.Word"
begin

unbundle bit_operations_syntax

section \<open>The machine game (src/App.tsx, MachineApp)\<close>

text \<open>
  The game keeps, per signed-in user, the list of generated accounts and a
  \<open>GameState\<close> row. The counters are JavaScript numbers, that is IEEE 754
  doubles; the row is used as the backend returns it. A counter is modelled by
  its integer value, and a sum is rounded to the nearest double as the host
  does (fractions, \<open>NaN\<close> and the infinities are not modelled). Calls to the
  hosted database are effects: every
  \<open>upsert\<close> on the table \<open>game_state\<close> is appended to a log kept in the
  state, every \<open>alert\<close> to a second log, and what the backend answers is an
  argument of the operation.
\<close>

record GameAccount =
  ga_id :: string
  ga_email :: string
  ga_password_plain :: string
  ga_password_md5 :: string
  ga_created_at :: string
  ga_user_id :: "string option"

record GameState =
  user_id :: string
  current_index :: int
  current_level :: int
  updated_at :: "string option"

record MachineApp =
  session_user_id :: string
  accounts :: "GameAccount list"
  gameState :: GameState
  game_state_upserts :: "GameState list"
  alerts :: "string list"

text \<open>The initial component state: \<open>useState\<close> at lines 108-109 of src/App.tsx.\<close>

definition initialMachine :: "string \<Rightarrow> MachineApp" where
  "initialMachine uid =
     \<lparr>session_user_id = uid, accounts = [],
      gameState = \<lparr>user_id = uid, current_index = 0, current_level = 1, updated_at = None\<rparr>,
      game_state_upserts = [], alerts = []\<rparr>"

text \<open>
  Addition of JavaScript numbers on integer values. A double has 53
  significant bits: \<open>ulp_of a\<close> is the distance between neighbouring doubles
  at magnitude \<open>a\<close> (1 below \<open>2 ^ 53\<close>, then doubling with every further
  bit), and \<open>round_nat\<close> rounds to the nearest multiple of it, a tie going to
  the even multiple.
\<close>

fun ulp_of :: "nat \<Rightarrow> nat" where
  "ulp_of a = (if a < 2 ^ 53 then 1 else 2 * ulp_of (a div 2))"

declare ulp_of.simps [simp del]

definition round_nat :: "nat \<Rightarrow> nat" where
  "round_nat a =
     (let u = ulp_of a; q = a div u; r = a mod u
      in if 2 * r < u then q * u
         else if u < 2 * r then (q + 1) * u
         else if even q then q * u else (q + 1) * u)"

definition round_double :: "int \<Rightarrow> int" where
  "round_double x = (if x < 0 then - int (round_nat (nat (- x))) else int (round_nat (nat x)))"

definition js_add :: "int \<Rightarrow> int \<Rightarrow> int" where
  "js_add a b = round_double (a + b)"

text \<open>
  \<open>handleNext\<close>: returns at once on an empty list; otherwise steps the index,
  wraps it to 0 with the level raised by one (\<open>nextLevel += 1\<close>), sets the
  state and upserts the row (with the time stamp \<open>now\<close>).
\<close>

definition handleNext :: "string \<Rightarrow> MachineApp \<Rightarrow> MachineApp" where
  "handleNext now m =
     (if length (accounts m) = 0 then m
      else
        let nextIndex = js_add (current_index (gameState m)) 1;
            nextLevel = current_level (gameState m);
            wrap = (nextIndex \<ge> int (length (accounts m)));
            nextIndex' = (if wrap then 0 else nextIndex);
            nextLevel' = (if wrap then js_add nextLevel 1 else nextLevel)
        in m\<lparr>gameState := (gameState m)\<lparr>current_index := nextIndex', current_level := nextLevel'\<rparr>,
              game_state_upserts := game_state_upserts m @
                [\<lparr>user_id = session_user_id m, current_index = nextIndex',
                  current_level = nextLevel', updated_at = Some now\<rparr>]\<rparr>)"

text \<open>\<open>updateGameState(idx, lvl)\<close>: sets both fields as given and upserts them.\<close>

definition updateGameState :: "int \<Rightarrow> int \<Rightarrow> MachineApp \<Rightarrow> MachineApp" where
  "updateGameState idx lvl m =
     m\<lparr>gameState := (gameState m)\<lparr>current_index := idx, current_level := lvl\<rparr>,
       game_state_upserts := game_state_upserts m @
         [\<lparr>user_id = session_user_id m, current_index = idx, current_level = lvl,
           updated_at = None\<rparr>]\<rparr>"

text \<open>
  \<open>handleReset\<close>: \<open>confirmed\<close> is the answer of the confirm dialog and
  \<open>delete_error\<close> the message of the error of the bulk delete, if any; the
  alert shows it after a fixed prefix, the log keeps the message.
\<close>

definition handleReset :: "bool \<Rightarrow> string option \<Rightarrow> MachineApp \<Rightarrow> MachineApp" where
  "handleReset confirmed delete_error m =
     (if confirmed then
        (case delete_error of
           Some msg \<Rightarrow> m\<lparr>alerts := alerts m @ [msg]\<rparr>
         | None \<Rightarrow> (updateGameState 0 1 m)\<lparr>accounts := []\<rparr>)
      else m)"

text \<open>
  \<open>handleGenerate\<close>: the rows built from the generators are sent to the
  backend; the state changes only through the answer of the bulk insert, which
  is an error (its message is alerted), the inserted rows, or neither. The
  test \<open>accounts.length === 0\<close> reads the list as it was before the insert.
\<close>

datatype insert_result = InsertError string | InsertData "GameAccount list" | InsertNothing

definition handleGenerate :: "insert_result \<Rightarrow> MachineApp \<Rightarrow> MachineApp" where
  "handleGenerate res m =
     (case res of
        InsertError msg \<Rightarrow> m\<lparr>alerts := alerts m @ [msg]\<rparr>
      | InsertData rows \<Rightarrow>
          (let m' = m\<lparr>accounts := accounts m @ rows\<rparr>
           in if length (accounts m) = 0 then updateGameState 0 1 m' else m')
      | InsertNothing \<Rightarrow> m)"

text \<open>The invariant of the data model on index and level.\<close>

definition game_inv :: "MachineApp \<Rightarrow> bool" where
  "game_inv m =
     ((if accounts m = [] then True
       else 0 \<le> current_index (gameState m) \<and>
            current_index (gameState m) < int (length (accounts m))) \<and>
      1 \<le> current_level (gameState m))"

section \<open>The digest function (./lib/crypto)\<close>

text \<open>
  Modelled from the spec: the function \<open>md5\<close> that both applications import
  from \<open>./lib/crypto\<close>, a module whose text is not among the sources. The
  specification calls it \<open>digest_md5\<close> and asks for the standard
  message-digest algorithm with a 128-bit result, rendered as 32 lowercase
  hexadecimal characters and bit for bit compatible with the reference
  vectors; that algorithm (MD5, RFC 1321) is written out here. A string is a
  list of 8-bit characters, each one byte of the message. A 32-bit word is a
  natural number below \<open>2 ^ 32\<close>, with the wrap-around of every addition,
  complement and rotation written out.
\<close>

type_synonym u32 = nat

definition md5_K :: "u32 list" where
  "md5_K =
    [0xd76aa478, 0xe8c7b756, 0x242070db, 0xc1bdceee, 0xf57c0faf, 0x4787c62a, 0xa8304613, 0xfd469501,
     0x698098d8, 0x8b44f7af, 0xffff5bb1, 0x895cd7be, 0x6b901122, 0xfd987193, 0xa679438e, 0x49b40821,
     0xf61e2562, 0xc040b340, 0x265e5a51, 0xe9b6c7aa, 0xd62f105d, 0x02441453, 0xd8a1e681, 0xe7d3fbc8,
     0x21e1cde6, 0xc33707d6, 0xf4d50d87, 0x455a14ed, 0xa9e3e905, 0xfcefa3f8, 0x676f02d9, 0x8d2a4c8a,
     0xfffa3942, 0x8771f681, 0x6d9d6122, 0xfde5380c, 0xa4beea44, 0x4bdecfa9, 0xf6bb4b60, 0xbebfbc70,
     0x289b7ec6, 0xeaa127fa, 0xd4ef3085, 0x04881d05, 0xd9d4d039, 0xe6db99e5, 0x1fa27cf8, 0xc4ac5665,
     0xf4292244, 0x432aff97, 0xab9423a7, 0xfc93a039, 0x655b59c3, 0x8f0ccc92, 0xffeff47d, 0x85845dd1,
     0x6fa87e4f, 0xfe2ce6e0, 0xa3014314, 0x4e0811a1, 0xf7537e82, 0xbd3af235, 0x2ad7d2bb, 0xeb86d391]"

definition md5_S :: "nat list" where
  "md5_S =
    [7, 12, 17, 22, 7, 12, 17, 22, 7, 12, 17, 22, 7, 12, 17, 22,
     5, 9, 14, 20, 5, 9, 14, 20, 5, 9, 14, 20, 5, 9, 14, 20,
     4, 11, 16, 23, 4, 11, 16, 23, 4, 11, 16, 23, 4, 11, 16, 23,
     6, 10, 15, 21, 6, 10, 15, 21, 6, 10, 15, 21, 6, 10, 15, 21]"

definition add32 :: "u32 \<Rightarrow> u32 \<Rightarrow> u32" where
  "add32 a b = (a + b) mod 2 ^ 32"

definition not32 :: "u32 \<Rightarrow> u32" where
  "not32 a = 0xffffffff XOR a"

definition rotl32 :: "u32 \<Rightarrow> nat \<Rightarrow> u32" where
  "rotl32 x n = (x * 2 ^ n) mod 2 ^ 32 OR x div 2 ^ (32 - n)"

definition md5_F :: "nat \<Rightarrow> u32 \<Rightarrow> u32 \<Rightarrow> u32 \<Rightarrow> u32" where
  "md5_F i b c d =
     (if i < 16 then (b AND c) OR (not32 b AND d)
      else if i < 32 then (d AND b) OR (not32 d AND c)
      else if i < 48 then b XOR c XOR d
      else c XOR (b OR not32 d))"

definition md5_g :: "nat \<Rightarrow> nat" where
  "md5_g i =
     (if i < 16 then i
      else if i < 32 then (5 * i + 1) mod 16
      else if i < 48 then (3 * i + 5) mod 16
      else (7 * i) mod 16)"

type_synonym md5_state = "u32 \<times> u32 \<times> u32 \<times> u32"

definition md5_init :: md5_state where
  "md5_init = (0x67452301, 0xefcdab89, 0x98badcfe, 0x10325476)"

fun md5_step :: "u32 list \<Rightarrow> md5_state \<Rightarrow> nat \<Rightarrow> md5_state" where
  "md5_step M (a, b, c, d) i =
     (d,
      add32 b (rotl32 (add32 (add32 (add32 (md5_F i b c d) a) (md5_K ! i)) (M ! md5_g i)) (md5_S ! i)),
      b, c)"

fun md5_block :: "md5_state \<Rightarrow> u32 list \<Rightarrow> md5_state" where
  "md5_block (a0, b0, c0, d0) M =
     (case foldl (md5_step M) (a0, b0, c0, d0) [0..<64] of
        (a, b, c, d) \<Rightarrow> (add32 a0 a, add32 b0 b, add32 c0 c, add32 d0 d))"

definition le_bytes :: "nat \<Rightarrow> nat \<Rightarrow> nat list" where
  "le_bytes k n = map (\<lambda>j. n div 256 ^ j mod 256) [0..<k]"

definition md5_pad :: "nat list \<Rightarrow> nat list" where
  "md5_pad bs =
     bs @ [0x80] @ replicate ((119 - length bs mod 64) mod 64) 0 @
     le_bytes 8 ((8 * length bs) mod 2 ^ 64)"

definition le_word :: "nat list \<Rightarrow> u32" where
  "le_word bs = foldr (\<lambda>b w. b + 256 * w) bs 0"

definition md5_words :: "nat list \<Rightarrow> u32 list" where
  "md5_words blk = map (\<lambda>j. le_word (take 4 (drop (4 * j) blk))) [0..<16]"

definition md5_blocks :: "nat list \<Rightarrow> u32 list list" where
  "md5_blocks bs = map (\<lambda>k. md5_words (take 64 (drop (64 * k) bs))) [0..<length bs div 64]"

definition hex_char :: "nat \<Rightarrow> char" where
  "hex_char n = ''0123456789abcdef'' ! n"

definition hex_byte :: "nat \<Rightarrow> string" where
  "hex_byte b = [hex_char (b div 16 mod 16), hex_char (b mod 16)]"

definition hex_word_le :: "u32 \<Rightarrow> string" where
  "hex_word_le w = concat (map hex_byte (le_bytes 4 w))"

definition md5_hex :: "md5_state \<Rightarrow> string" where
  "md5_hex st = (case st of (a, b, c, d) \<Rightarrow> hex_word_le a @ hex_word_le b @ hex_word_le c @ hex_word_le d)"

text \<open>
  Modelled from the spec: \<open>digest_md5\<close>, the \<open>md5\<close> of \<open>./lib/crypto\<close>:
  padding, the blocks folded from the initial state, the state in hexadecimal.
\<close>

definition digest_md5 :: "string \<Rightarrow> string" where
  "digest_md5 s = md5_hex (foldl md5_block md5_init (md5_blocks (md5_pad (map of_char s))))"

section \<open>The registration bot (src/unnamed/part_001)\<close>

subsection \<open>Records of src/types.ts\<close>

datatype account_status = PENDING | SUCCESS | ERROR

text \<open>
  \<open>GeneratedAccount\<close> of src/types.ts. The field \<open>id\<close> is named \<open>id_acc\<close>
  here, since \<open>id\<close> is the identity function of HOL. The optional
  \<open>errorMessage\<close> is an option.
\<close>

record GeneratedAccount =
  id_acc :: string
  email :: string
  passwordPlain :: string
  passwordMd5 :: string
  status :: account_status
  createdAt :: string
  errorMessage :: "string option"

record RegistrationPayload =
  account :: string
  pwd :: string
  user_type :: int
  user_email :: string
  code :: string
  captcha :: string
  telegram :: string
  whatsapp :: string

subsection \<open>Values and errors of the host\<close>

text \<open>
  A parsed JSON value as \<open>response.json()\<close> gives it. An object is the list of
  its properties in the order of the text, and a property that occurs twice
  has its last value (hence \<open>rev\<close> in every lookup); a number is an integer
  here (\<open>registerAccount\<close> only compares it with 200 and 0).
\<close>

datatype json =
  JNull | JBool bool | JNumber int | JString string
  | JArray "json list" | JObject "(string \<times> json) list"

text \<open>A thrown JavaScript \<open>Error\<close>, with its \<open>message\<close>.\<close>

datatype js_error = Error (message: string)

text \<open>
  What one call of \<open>fetch\<close> does: the promise is rejected (network failure,
  blocked cross-origin request), or it gives a response with its \<open>ok\<close> flag,
  its \<open>status\<close>, and what \<open>response.json()\<close> will give: a parse error or a
  value.
\<close>

datatype fetch_outcome =
  FetchRejected js_error
  | FetchResponse (ok: bool) (http_status: int) (json_body: "js_error + json")

text \<open>Decimal rendering of a number in a template literal.\<close>

definition digit_char :: "nat \<Rightarrow> char" where
  "digit_char n = ''0123456789'' ! n"

fun string_of_nat :: "nat \<Rightarrow> string" where
  "string_of_nat n =
     (if n < 10 then [digit_char n] else string_of_nat (n div 10) @ [digit_char (n mod 10)])"

declare string_of_nat.simps [simp del]

definition string_of_int :: "int \<Rightarrow> string" where
  "string_of_int i = (if i < 0 then CHR ''-'' # string_of_nat (nat (- i)) else string_of_nat (nat i))"

text \<open>JavaScript truthiness of a JSON value, for \<open>data && ...\<close>.\<close>

fun truthy :: "json \<Rightarrow> bool" where
  "truthy JNull = False"
| "truthy (JBool b) = b"
| "truthy (JNumber n) = (n \<noteq> 0)"
| "truthy (JString s) = (s \<noteq> [])"
| "truthy (JArray xs) = True"
| "truthy (JObject kvs) = True"

text \<open>
  \<open>typeof data.code === 'number' && data.code !== 200 && data.code !== 0\<close>: only
  an object can have a property \<open>code\<close> that is a number.
\<close>

fun code_is_failure :: "json \<Rightarrow> bool" where
  "code_is_failure (JObject kvs) =
     (case map_of (rev kvs) ''code'' of
        Some (JNumber c) \<Rightarrow> c \<noteq> 200 \<and> c \<noteq> 0
      | _ \<Rightarrow> False)"
| "code_is_failure _ = False"

subsection \<open>registerAccount\<close>

definition registration_payload :: "GeneratedAccount \<Rightarrow> RegistrationPayload" where
  "registration_payload acc =
     \<lparr>account = email acc, pwd = passwordMd5 acc, user_type = 1, user_email = email acc,
      code = ''kyr5ib'', captcha = '''', telegram = '''', whatsapp = ''''\<rparr>"

text \<open>
  \<open>registerAccount\<close> posts the payload with one call of \<open>fetch\<close> and
  rethrows whatever is thrown inside its \<open>try\<close>. The list \<open>net\<close> is the log of
  the requests sent so far; the result is \<open>Inl\<close> of the thrown error or
  \<open>Inr ()\<close> when the promise resolves. The branch on \<open>data.code\<close> has an empty
  body in the source (its \<open>throw\<close> is a comment), so both of its arms resolve.
\<close>

definition registerAccount ::
  "GeneratedAccount \<Rightarrow> fetch_outcome \<Rightarrow> RegistrationPayload list \<Rightarrow>
   (js_error + unit) \<times> RegistrationPayload list" where
  "registerAccount acc outcome net =
     ((case outcome of
         FetchRejected e \<Rightarrow> Inl e
       | FetchResponse is_ok st body \<Rightarrow>
           if \<not> is_ok then Inl (Error (''HTTP '' @ string_of_int st))
           else (case body of
                   Inl e \<Rightarrow> Inl e
                 | Inr data \<Rightarrow>
                     if truthy data \<and> code_is_failure data then Inr () else Inr ())),
      net @ [registration_payload acc])"

subsection \<open>The generation loop\<close>

text \<open>
  The component state. \<open>bot_accounts\<close> is the state variable \<open>accounts\<close> of
  the bot (the machine game has its own \<open>accounts\<close>), \<open>shouldStop\<close> is
  \<open>shouldStopRef.current\<close> and \<open>posted\<close> the log of requests. The progress
  percentage, a floating-point value for display only, is not modelled.
\<close>

record BotApp =
  targetCount :: int
  isRunning :: bool
  bot_accounts :: "GeneratedAccount list"
  shouldStop :: bool
  posted :: "RegistrationPayload list"

text \<open>
  What the host supplies in one iteration: the values of the random
  generators, of \<open>crypto.randomUUID\<close> and of the clock, the outcome of the
  request, and whether the stop button is clicked while the iteration waits
  (for the request or for the delay of 500 ms).
\<close>

record iteration_env =
  gen_email :: string
  gen_password :: string
  gen_id :: string
  gen_createdAt :: string
  fetch_result :: fetch_outcome
  stop_clicked :: bool

definition stopGeneration :: "BotApp \<Rightarrow> BotApp" where
  "stopGeneration s = s\<lparr>shouldStop := True, isRunning := False\<rparr>"

text \<open>The record built at lines 56-67.\<close>

definition new_account :: "iteration_env \<Rightarrow> GeneratedAccount" where
  "new_account e =
     \<lparr>id_acc = gen_id e, email = gen_email e, passwordPlain = gen_password e,
      passwordMd5 = digest_md5 (gen_password e), status = PENDING,
      createdAt = gen_createdAt e, errorMessage = None\<rparr>"

text \<open>
  The two \<open>setAccounts(prev => prev.map(...))\<close> of lines 73-80: the arm taken
  depends on whether \<open>registerAccount\<close> threw.
\<close>

definition resolve_status ::
  "string \<Rightarrow> js_error + unit \<Rightarrow> GeneratedAccount list \<Rightarrow> GeneratedAccount list" where
  "resolve_status new_id r prev =
     (case r of
        Inr _ \<Rightarrow> map (\<lambda>acc. if id_acc acc = new_id then acc\<lparr>status := SUCCESS\<rparr> else acc) prev
      | Inl err \<Rightarrow>
          map (\<lambda>acc. if id_acc acc = new_id
                      then acc\<lparr>status := ERROR, errorMessage := Some (message err)\<rparr>
                      else acc) prev)"

text \<open>
  The body of the \<open>for\<close> loop after its stop check. A click on the stop
  button during one of the two waits runs \<open>stopGeneration\<close>, which touches
  only the flag and \<open>isRunning\<close>, so it is applied at the end of the body.
\<close>

definition generation_body :: "iteration_env \<Rightarrow> BotApp \<Rightarrow> BotApp" where
  "generation_body e s =
     (let newAccount = new_account e;
          s1 = s\<lparr>bot_accounts := newAccount # bot_accounts s\<rparr>;
          (r, net) = registerAccount newAccount (fetch_result e) (posted s1);
          s2 = s1\<lparr>bot_accounts := resolve_status (id_acc newAccount) r (bot_accounts s1),
                  posted := net\<rparr>
      in if stop_clicked e then stopGeneration s2 else s2)"

text \<open>
  The iterations of one call of \<open>startGeneration\<close> taken alone, from
  iteration \<open>i\<close> on, when the only clicks during its waits are stop clicks.
  Calls that overlap are the subject of the next subsection.
\<close>

function startGeneration_loop :: "(nat \<Rightarrow> iteration_env) \<Rightarrow> int \<Rightarrow> int \<Rightarrow> BotApp \<Rightarrow> BotApp" where
  "startGeneration_loop env n i s =
     (if i < n then
        (if shouldStop s then s
         else startGeneration_loop env n (i + 1) (generation_body (env (nat i)) s))
      else s)"
  by pat_completeness auto
termination
  by (relation "measure (\<lambda>(env, n, i, s). nat (n - i))") auto

declare startGeneration_loop.simps [simp del]

subsection \<open>Clicks and resumptions\<close>

text \<open>
  A call of \<open>startGeneration\<close> is suspended at two places: while its request
  is pending, and during its delay. What lies between two suspensions runs
  without interruption, so the component is stepped by events: a click on
  start or on stop, the outcome of a pending request, the end of a delay.
  \<open>stopGeneration\<close> sets \<open>isRunning\<close> to false while the stopped call is
  still suspended, so a second call can pass the guard \<open>if (isRunning) return\<close>
  and several calls can be suspended at once. Each call keeps the target
  count of its closure and its loop variable.
\<close>

datatype call_phase = Requesting GeneratedAccount | Delaying | Returned

record generation_call =
  call_target :: int
  call_i :: int
  call_phase :: call_phase

record BotSystem =
  bot :: BotApp
  calls :: "generation_call list"

text \<open>
  The head of the loop up to the next suspension: the bound and the stop
  flag are tested, then the record is created and the request is started; when
  the loop is left, \<open>setIsRunning(false)\<close> runs and the call returns. Of the
  values in \<open>e\<close> only those of the generators, the id and the clock are read.
\<close>

definition enter_iteration ::
  "iteration_env \<Rightarrow> int \<Rightarrow> int \<Rightarrow> BotApp \<Rightarrow> BotApp \<times> generation_call" where
  "enter_iteration e n i s =
     (if i < n \<and> \<not> shouldStop s then
        (s\<lparr>bot_accounts := new_account e # bot_accounts s\<rparr>,
         \<lparr>call_target = n, call_i = i, call_phase = Requesting (new_account e)\<rparr>)
      else
        (s\<lparr>isRunning := False\<rparr>,
         \<lparr>call_target = n, call_i = i, call_phase = Returned\<rparr>))"

text \<open>
  \<open>startGeneration\<close>, from the click to its first suspension: the guard, the
  reset of the flag (line 50), the first iteration.
\<close>

definition startGeneration :: "iteration_env \<Rightarrow> BotSystem \<Rightarrow> BotSystem" where
  "startGeneration e sys =
     (if isRunning (bot sys) then sys
      else
        (let s0 = (bot sys)\<lparr>isRunning := True, shouldStop := False\<rparr>;
             (s1, c) = enter_iteration e (targetCount s0) 0 s0
         in sys\<lparr>bot := s1, calls := calls sys @ [c]\<rparr>))"

text \<open>
  The request of call \<open>k\<close> resolves with \<open>outcome\<close>: the status of the record
  is set and the call starts its delay. The log \<open>posted\<close> records the request
  here, with its outcome.
\<close>

definition request_done :: "nat \<Rightarrow> fetch_outcome \<Rightarrow> BotSystem \<Rightarrow> BotSystem" where
  "request_done k outcome sys =
     (if k < length (calls sys) then
        (case call_phase (calls sys ! k) of
           Requesting acc \<Rightarrow>
             (let (r, net) = registerAccount acc outcome (posted (bot sys));
                  s1 = (bot sys)\<lparr>bot_accounts := resolve_status (id_acc acc) r (bot_accounts (bot sys)),
                                  posted := net\<rparr>
              in sys\<lparr>bot := s1, calls := (calls sys)[k := (calls sys ! k)\<lparr>call_phase := Delaying\<rparr>]\<rparr>)
         | _ \<Rightarrow> sys)
      else sys)"

text \<open>The delay of call \<open>k\<close> ends: \<open>i++\<close>, then the head of the loop.\<close>

definition delay_done :: "nat \<Rightarrow> iteration_env \<Rightarrow> BotSystem \<Rightarrow> BotSystem" where
  "delay_done k e sys =
     (if k < length (calls sys) \<and> call_phase (calls sys ! k) = Delaying then
        (let c = calls sys ! k;
             (s1, c') = enter_iteration e (call_target c) (js_add (call_i c) 1) (bot sys)
         in sys\<lparr>bot := s1, calls := (calls sys)[k := c']\<rparr>)
      else sys)"

datatype bot_event =
  StartClick iteration_env
  | StopClick
  | RequestDone nat fetch_outcome
  | DelayDone nat iteration_env

fun bot_step :: "bot_event \<Rightarrow> BotSystem \<Rightarrow> BotSystem" where
  "bot_step (StartClick e) sys = startGeneration e sys"
| "bot_step StopClick sys = sys\<lparr>bot := stopGeneration (bot sys)\<rparr>"
| "bot_step (RequestDone k outcome) sys = request_done k outcome sys"
| "bot_step (DelayDone k e) sys = delay_done k e sys"

definition run_events :: "bot_event list \<Rightarrow> BotSystem \<Rightarrow> BotSystem" where
  "run_events evs sys = fold bot_step evs sys"

subsection \<open>Persistence in localStorage\<close>

text \<open>
  The two effects of lines 24-39 write \<open>JSON.stringify(accounts)\<close> under a
  fixed key and read it back with \<open>JSON.parse\<close>. Both are functions of the
  host; they are modelled on texts of 8-bit characters, for the values that
  are built from strings, arrays, objects, \<open>null\<close>, booleans and integers.
  The parser is narrower than the host's: a number with a fraction or an
  exponent and an escape \<open>\uXXXX\<close> above \<open>00FF\<close> are refused. No text that
  \<open>JSON_stringify\<close> produces contains either.
\<close>

definition dquote :: char where
  "dquote = CHR 0x22"

definition backslash :: char where
  "backslash = CHR 0x5C"

definition hex4 :: "nat \<Rightarrow> string" where
  "hex4 n = [hex_char (n div 4096 mod 16), hex_char (n div 256 mod 16),
             hex_char (n div 16 mod 16), hex_char (n mod 16)]"

text \<open>
  \<open>JSON.stringify\<close> on one character of a string: the quote and the
  backslash are escaped, a control character has a short escape or the form
  \<open>\u00XX\<close>, any other character stands for itself.
\<close>

definition quote_char :: "char \<Rightarrow> string" where
  "quote_char c =
     (if c = dquote then [backslash, dquote]
      else if c = backslash then [backslash, backslash]
      else if c = CHR 0x08 then [backslash, CHR ''b'']
      else if c = CHR 0x09 then [backslash, CHR ''t'']
      else if c = CHR 0x0A then [backslash, CHR ''n'']
      else if c = CHR 0x0C then [backslash, CHR ''f'']
      else if c = CHR 0x0D then [backslash, CHR ''r'']
      else if (of_char c :: nat) < 32 then backslash # CHR ''u'' # hex4 (of_char c)
      else [c])"

definition quote :: "string \<Rightarrow> string" where
  "quote s = dquote # concat (map quote_char s) @ [dquote]"

fun JSON_stringify :: "json \<Rightarrow> string"
  and stringify_elements :: "json list \<Rightarrow> string"
  and stringify_members :: "(string \<times> json) list \<Rightarrow> string" where
  "JSON_stringify JNull = ''null''"
| "JSON_stringify (JBool b) = (if b then ''true'' else ''false'')"
| "JSON_stringify (JNumber n) = string_of_int n"
| "JSON_stringify (JString s) = quote s"
| "JSON_stringify (JArray vs) = ''['' @ stringify_elements vs @ '']''"
| "JSON_stringify (JObject kvs) = ''{'' @ stringify_members kvs @ ''}''"
| "stringify_elements [] = []"
| "stringify_elements [v] = JSON_stringify v"
| "stringify_elements (v # w # vs) = JSON_stringify v @ '','' @ stringify_elements (w # vs)"
| "stringify_members [] = []"
| "stringify_members [(k, v)] = quote k @ '':'' @ JSON_stringify v"
| "stringify_members ((k, v) # kv # kvs) =
     quote k @ '':'' @ JSON_stringify v @ '','' @ stringify_members (kv # kvs)"

text \<open>\<open>JSON.parse\<close>: white space, escapes, and the value grammar.\<close>

definition is_ws :: "char \<Rightarrow> bool" where
  "is_ws c = (c = CHR '' '' \<or> c = CHR 0x09 \<or> c = CHR 0x0A \<or> c = CHR 0x0D)"

definition skip_ws :: "string \<Rightarrow> string" where
  "skip_ws s = dropWhile is_ws s"

definition hex_val :: "char \<Rightarrow> nat option" where
  "hex_val c =
     (let n = (of_char c :: nat) in
      if 48 \<le> n \<and> n \<le> 57 then Some (n - 48)
      else if 97 \<le> n \<and> n \<le> 102 then Some (n - 87)
      else if 65 \<le> n \<and> n \<le> 70 then Some (n - 55)
      else None)"

definition unescape :: "char \<Rightarrow> char option" where
  "unescape e =
     (if e = dquote then Some dquote
      else if e = backslash then Some backslash
      else if e = CHR ''/'' then Some CHR ''/''
      else if e = CHR ''b'' then Some (CHR 0x08)
      else if e = CHR ''t'' then Some (CHR 0x09)
      else if e = CHR ''n'' then Some (CHR 0x0A)
      else if e = CHR ''f'' then Some (CHR 0x0C)
      else if e = CHR ''r'' then Some (CHR 0x0D)
      else None)"

definition cons_result :: "char \<Rightarrow> (string \<times> string) option \<Rightarrow> (string \<times> string) option" where
  "cons_result c r = (case r of None \<Rightarrow> None | Some (s, rest) \<Rightarrow> Some (c # s, rest))"

text \<open>
  The characters of a string after its opening quote, up to the closing one.
  An escape \<open>\uXXXX\<close> above 255 has no 8-bit character and is refused.
\<close>

fun parse_chars :: "string \<Rightarrow> (string \<times> string) option" where
  "parse_chars [] = None"
| "parse_chars (c # cs) =
     (if c = dquote then Some ([], cs)
      else if c = backslash then
        (case cs of
           [] \<Rightarrow> None
         | e # cs1 \<Rightarrow>
             if e = CHR ''u'' then
               (case cs1 of
                  h1 # h2 # h3 # h4 # cs2 \<Rightarrow>
                    (case (hex_val h1, hex_val h2, hex_val h3, hex_val h4) of
                       (Some a, Some b, Some c, Some d) \<Rightarrow>
                         if ((a * 16 + b) * 16 + c) * 16 + d < 256
                         then cons_result (char_of (((a * 16 + b) * 16 + c) * 16 + d)) (parse_chars cs2)
                         else None
                     | _ \<Rightarrow> None)
                | _ \<Rightarrow> None)
             else
               (case unescape e of
                  None \<Rightarrow> None
                | Some d \<Rightarrow> cons_result d (parse_chars cs1)))
      else if (of_char c :: nat) < 32 then None
      else cons_result c (parse_chars cs))"

fun digits_value :: "string \<Rightarrow> nat \<Rightarrow> nat" where
  "digits_value [] acc = acc"
| "digits_value (c # cs) acc = digits_value cs (10 * acc + (of_char c - 48))"

definition is_digit :: "char \<Rightarrow> bool" where
  "is_digit c = (48 \<le> (of_char c :: nat) \<and> (of_char c :: nat) \<le> 57)"

text \<open>An integer literal: an optional minus, then digits without a leading zero.\<close>

definition parse_number :: "string \<Rightarrow> (json \<times> string) option" where
  "parse_number s =
     (let neg = (s \<noteq> [] \<and> hd s = CHR ''-'');
          t = (if neg then tl s else s);
          ds = takeWhile is_digit t;
          rest = dropWhile is_digit t
      in if ds = [] \<or> (length ds > 1 \<and> hd ds = CHR ''0'') then None
         else Some (JNumber (if neg then - int (digits_value ds 0) else int (digits_value ds 0)), rest))"

definition starts_with :: "string \<Rightarrow> string \<Rightarrow> bool" where
  "starts_with p s = (take (length p) s = p)"

text \<open>
  The value grammar, with a bound on the number of nested calls; \<open>JSON_parse\<close>
  passes the length of the text as the bound.
\<close>

fun parse_value :: "nat \<Rightarrow> string \<Rightarrow> (json \<times> string) option"
  and parse_elements :: "nat \<Rightarrow> string \<Rightarrow> (json list \<times> string) option"
  and parse_members :: "nat \<Rightarrow> string \<Rightarrow> ((string \<times> json) list \<times> string) option" where
  "parse_value 0 s = None"
| "parse_value (Suc n) s =
     (case skip_ws s of
        [] \<Rightarrow> None
      | c # cs \<Rightarrow>
          if c = dquote then
            (case parse_chars cs of None \<Rightarrow> None | Some (str, r) \<Rightarrow> Some (JString str, r))
          else if c = CHR ''['' then
            (if skip_ws cs \<noteq> [] \<and> hd (skip_ws cs) = CHR '']'' then Some (JArray [], tl (skip_ws cs))
             else (case parse_elements n cs of None \<Rightarrow> None | Some (vs, r) \<Rightarrow> Some (JArray vs, r)))
          else if c = CHR ''{'' then
            (if skip_ws cs \<noteq> [] \<and> hd (skip_ws cs) = CHR ''}'' then Some (JObject [], tl (skip_ws cs))
             else (case parse_members n cs of None \<Rightarrow> None | Some (kvs, r) \<Rightarrow> Some (JObject kvs, r)))
          else if starts_with ''null'' (c # cs) then Some (JNull, drop 4 (c # cs))
          else if starts_with ''true'' (c # cs) then Some (JBool True, drop 4 (c # cs))
          else if starts_with ''false'' (c # cs) then Some (JBool False, drop 5 (c # cs))
          else parse_number (c # cs))"
| "parse_elements 0 s = None"
| "parse_elements (Suc n) s =
     (case parse_value n s of
        None \<Rightarrow> None
      | Some (v, r) \<Rightarrow>
          (case skip_ws r of
             [] \<Rightarrow> None
           | c # cs \<Rightarrow>
               if c = CHR '','' then
                 (case parse_elements n cs of None \<Rightarrow> None | Some (vs, r') \<Rightarrow> Some (v # vs, r'))
               else if c = CHR '']'' then Some ([v], cs)
               else None))"
| "parse_members 0 s = None"
| "parse_members (Suc n) s =
     (case skip_ws s of
        [] \<Rightarrow> None
      | q # s1 \<Rightarrow>
          if q \<noteq> dquote then None
          else
            (case parse_chars s1 of
               None \<Rightarrow> None
             | Some (k, s2) \<Rightarrow>
                 (case skip_ws s2 of
                    [] \<Rightarrow> None
                  | colon # s3 \<Rightarrow>
                      if colon \<noteq> CHR '':'' then None
                      else
                        (case parse_value n s3 of
                           None \<Rightarrow> None
                         | Some (v, r) \<Rightarrow>
                             (case skip_ws r of
                                [] \<Rightarrow> None
                              | c # cs \<Rightarrow>
                                  if c = CHR '','' then
                                    (case parse_members n cs of
                                       None \<Rightarrow> None
                                     | Some (kvs, r') \<Rightarrow> Some ((k, v) # kvs, r'))
                                  else if c = CHR ''}'' then Some ([(k, v)], cs)
                                  else None)))))"

definition JSON_parse :: "string \<Rightarrow> json option" where
  "JSON_parse text =
     (case parse_value (length text) text of
        None \<Rightarrow> None
      | Some (v, rest) \<Rightarrow> if skip_ws rest = [] then Some v else None)"

text \<open>
  An account as the object that \<open>JSON.stringify\<close> sees: the properties in
  the order of their creation, \<open>errorMessage\<close> last and only when it is set.
\<close>

definition status_string :: "account_status \<Rightarrow> string" where
  "status_string st = (case st of PENDING \<Rightarrow> ''PENDING'' | SUCCESS \<Rightarrow> ''SUCCESS'' | ERROR \<Rightarrow> ''ERROR'')"

definition account_fields :: "GeneratedAccount \<Rightarrow> (string \<times> string) list" where
  "account_fields a =
     [(''id'', id_acc a), (''email'', email a), (''passwordPlain'', passwordPlain a),
      (''passwordMd5'', passwordMd5 a), (''status'', status_string (status a)),
      (''createdAt'', createdAt a)] @
     (case errorMessage a of None \<Rightarrow> [] | Some m \<Rightarrow> [(''errorMessage'', m)])"

definition string_members :: "(string \<times> string) list \<Rightarrow> (string \<times> json) list" where
  "string_members props = map (\<lambda>(k, s). (k, JString s)) props"

definition json_of_account :: "GeneratedAccount \<Rightarrow> json" where
  "json_of_account a = JObject (string_members (account_fields a))"

definition json_of_accounts :: "GeneratedAccount list \<Rightarrow> json" where
  "json_of_accounts accs = JArray (map json_of_account accs)"

text \<open>
  The parsed value is used as the account list without any check. The typed
  reading of it: an array of objects with the six string properties and an
  optional string \<open>errorMessage\<close>; any other value has no typed reading.
\<close>

definition status_of_string :: "string \<Rightarrow> account_status option" where
  "status_of_string s =
     (if s = ''PENDING'' then Some PENDING
      else if s = ''SUCCESS'' then Some SUCCESS
      else if s = ''ERROR'' then Some ERROR
      else None)"

definition string_field :: "(string \<times> json) list \<Rightarrow> string \<Rightarrow> string option" where
  "string_field kvs k = (case map_of (rev kvs) k of Some (JString s) \<Rightarrow> Some s | _ \<Rightarrow> None)"

definition account_of_json :: "json \<Rightarrow> GeneratedAccount option" where
  "account_of_json v =
     (case v of
        JObject kvs \<Rightarrow>
          (case (string_field kvs ''id'', string_field kvs ''email'',
                 string_field kvs ''passwordPlain'', string_field kvs ''passwordMd5'',
                 Option.bind (string_field kvs ''status'') status_of_string,
                 string_field kvs ''createdAt'') of
             (Some i, Some e, Some pp, Some pm, Some st, Some ca) \<Rightarrow>
               Some \<lparr>id_acc = i, email = e, passwordPlain = pp, passwordMd5 = pm, status = st,
                     createdAt = ca, errorMessage = string_field kvs ''errorMessage''\<rparr>
           | _ \<Rightarrow> None)
      | _ \<Rightarrow> None)"

definition accounts_of_json :: "json \<Rightarrow> GeneratedAccount list option" where
  "accounts_of_json v = (case v of JArray vs \<Rightarrow> those (map account_of_json vs) | _ \<Rightarrow> None)"

type_synonym storage = "string \<rightharpoonup> string"

definition storage_key :: string where
  "storage_key = ''z_autoreg_accounts''"

text \<open>The effect of lines 37-39, run after every change of \<open>accounts\<close>.\<close>

definition save_accounts :: "GeneratedAccount list \<Rightarrow> storage \<Rightarrow> storage" where
  "save_accounts accs st = st(storage_key \<mapsto> JSON_stringify (json_of_accounts accs))"

text \<open>
  The effect of lines 25-34: nothing is restored when the key is absent or
  its text is empty, or when the text does not parse (the error is caught and
  logged).
\<close>

datatype load_result = NothingSaved | Unparsable | Untyped json | Loaded "GeneratedAccount list"

definition load_accounts :: "storage \<Rightarrow> load_result" where
  "load_accounts st =
     (case st storage_key of
        None \<Rightarrow> NothingSaved
      | Some saved \<Rightarrow>
          if saved = [] then NothingSaved
          else (case JSON_parse saved of
                  None \<Rightarrow> Unparsable
                | Some v \<Rightarrow>
                    (case accounts_of_json v of None \<Rightarrow> Untyped v | Some accs \<Rightarrow> Loaded accs)))"

text \<open>
  The effects of the first render, in the order of their declaration: the
  load effect reads the storage it finds, then the save effect stores the
  initial, empty list.
\<close>

definition mount_effects :: "storage \<Rightarrow> load_result \<times> storage" where
  "mount_effects st = (load_accounts st, save_accounts [] st)"

section \<open>Sample states and predicates used in the statements\<close>

definition acct0 :: GameAccount where
  "acct0 = \<lparr>ga_id = ''a'', ga_email = ''e@x.io'', ga_password_plain = ''p'',
            ga_password_md5 = ''h'', ga_created_at = ''t'', ga_user_id = Some ''u''\<rparr>"

definition machine2 :: "int \<Rightarrow> int \<Rightarrow> MachineApp" where
  "machine2 i l = (initialMachine ''u'')\<lparr>accounts := [acct0, acct0],
      gameState := \<lparr>user_id = ''u'', current_index = i, current_level = l, updated_at = None\<rparr>\<rparr>"

text \<open>The characters of the pattern \<open>[0-9a-f]\<close>.\<close>

definition is_lower_hex :: "char \<Rightarrow> bool" where
  "is_lower_hex c = (c \<in> set ''0123456789abcdef'')"

text \<open>Sample inputs of the bot: a reply with \<open>code\<close> 500, a reply with status 503.\<close>

definition env_code500 :: iteration_env where
  "env_code500 =
     \<lparr>gen_email = ''a@b.io'', gen_password = ''pw1'', gen_id = ''id1'', gen_createdAt = ''t1'',
      fetch_result = FetchResponse True 200 (Inr (JObject [(''code'', JNumber 500)])),
      stop_clicked = False\<rparr>"

definition env_http503 :: iteration_env where
  "env_http503 =
     \<lparr>gen_email = ''c@d.io'', gen_password = ''pw2'', gen_id = ''id2'', gen_createdAt = ''t2'',
      fetch_result = FetchResponse False 503 (Inl (Error '''')),
      stop_clicked = False\<rparr>"

definition bot0 :: BotApp where
  "bot0 = \<lparr>targetCount = 3, isRunning = False, bot_accounts = [], shouldStop = False, posted = []\<rparr>"

text \<open>A script of the host: the failing reply first.\<close>

definition script_fail_first :: "nat \<Rightarrow> iteration_env" where
  "script_fail_first j = (if j = 0 then env_http503 else env_code500)"

text \<open>
  Sample events: a third set of generated values; the component before any
  click; a stop click that is left alone, and one followed by a new start.
\<close>

definition env_third :: iteration_env where
  "env_third = env_code500\<lparr>gen_id := ''id3''\<rparr>"


definition system0 :: BotSystem where
  "system0 = \<lparr>bot = bot0, calls = []\<rparr>"

definition clicks_stop :: "bot_event list" where
  "clicks_stop =
     [StartClick env_http503, StopClick,
      RequestDone 0 (fetch_result env_http503), DelayDone 0 env_third]"

definition clicks_stop_restart :: "bot_event list" where
  "clicks_stop_restart =
     [StartClick env_http503, StopClick, StartClick env_code500,
      RequestDone 0 (fetch_result env_http503), DelayDone 0 env_third]"

section \<open>The game counter\<close>

subsection \<open>Rounding\<close>

lemma ulp_of_small: "a < 2 ^ 53 \<Longrightarrow> ulp_of a = 1"
  by (simp add: ulp_of.simps)

lemma round_nat_exact: "a \<le> 2 ^ 53 \<Longrightarrow> round_nat a = a"
proof (cases "a < 2 ^ 53")
  case True
  then show ?thesis by (simp add: round_nat_def ulp_of_small)
next
  case False
  assume "a \<le> 2 ^ 53"
  with False have a: "a = 2 ^ 53" by simp
  have "ulp_of (2 ^ 53) = 2"
    by (subst ulp_of.simps) (simp add: ulp_of_small)
  then show ?thesis
    by (simp add: round_nat_def a)
qed

lemma round_double_exact: "- (2 ^ 53) \<le> x \<Longrightarrow> x \<le> 2 ^ 53 \<Longrightarrow> round_double x = x"
  by (simp add: round_double_def round_nat_exact nat_le_iff)

lemma ulp_of_pos: "0 < ulp_of a"
  by (induction a rule: ulp_of.induct) (subst ulp_of.simps, simp)

lemma ulp_of_le: "1 \<le> a \<Longrightarrow> ulp_of a \<le> a"
proof (induction a rule: ulp_of.induct)
  case (1 a)
  show ?case
  proof (cases "a < 2 ^ 53")
    case True
    then show ?thesis using "1.prems" by (simp add: ulp_of_small)
  next
    case False
    then have "1 \<le> a div 2" by simp
    then have "ulp_of (a div 2) \<le> a div 2"
      using "1.IH" False by simp
    moreover have "ulp_of a = 2 * ulp_of (a div 2)"
      using False by (subst ulp_of.simps) simp
    ultimately show ?thesis by simp
  qed
qed

lemma round_nat_ge_1: "1 \<le> a \<Longrightarrow> 1 \<le> round_nat a"
proof -
  assume a: "1 \<le> a"
  let ?u = "ulp_of a"
  have u: "0 < ?u" "?u \<le> a"
    using ulp_of_pos ulp_of_le [OF a] by simp_all
  then have "1 \<le> a div ?u"
    by (simp add: div_greater_zero_iff Suc_le_eq)
  then have "1 \<le> (a div ?u) * ?u"
    using u(1) by (simp add: Suc_le_eq)
  then show ?thesis
    by (simp add: round_nat_def Let_def)
qed

lemma round_double_ge_1: "1 \<le> x \<Longrightarrow> 1 \<le> round_double x"
  using round_nat_ge_1 [of "nat x"] by (simp add: round_double_def)

lemma round_double_nonneg: "0 \<le> x \<Longrightarrow> 0 \<le> round_double x"
  by (simp add: round_double_def)


subsection \<open>handleNext\<close>




text \<open>
  Claim C8. On an empty account list \<open>handleNext\<close> returns the state as it
  was: index and level are unchanged and no upsert is issued.
\<close>

theorem handleNext_empty:
  "accounts m = [] \<Longrightarrow>
     handleNext now m = m \<and>
     current_index (gameState (handleNext now m)) = current_index (gameState m) \<and>
     current_level (gameState (handleNext now m)) = current_level (gameState m) \<and>
     game_state_upserts (handleNext now m) = game_state_upserts m"
  by (simp add: handleNext_def)

theorem handleNext_empty_witness:
  "accounts (initialMachine ''u'') = [] \<and>
   handleNext ''t1'' (initialMachine ''u'') = initialMachine ''u'' \<and>
   game_state_upserts (handleNext ''t1'' (initialMachine ''u'')) = []"
  using handleNext_empty [of "initialMachine ''u''" "''t1''"]
  by (simp add: initialMachine_def)

subsection \<open>The invariant\<close>

text \<open>
  Claim C2. From a state that satisfies the invariant (the index is a valid
  index of a non-empty list, the level is at least 1), every operation that
  updates the game state keeps it: \<open>handleNext\<close>; \<open>updateGameState\<close>, a
  closure of the component that is called at two places, both with the
  arguments \<open>(0, 1)\<close>; \<open>handleReset\<close>, whatever the dialog and the delete
  answer; and \<open>handleGenerate\<close> with its reset after generation, whatever the
  insert answers.
\<close>

theorem game_inv_preserved:
  assumes "game_inv m"
  shows "game_inv (handleNext now m) \<and>
         game_inv (updateGameState 0 1 m) \<and>
         game_inv (handleReset confirmed delete_error m) \<and>
         game_inv (handleGenerate res m)"
proof -
  have next_idx: "0 \<le> js_add (current_index (gameState m)) 1"
    if "0 \<le> current_index (gameState m)"
    using that by (simp add: js_add_def round_double_nonneg)
  have next_lvl: "1 \<le> js_add (current_level (gameState m)) 1"
    if "1 \<le> current_level (gameState m)"
    using that by (simp add: js_add_def round_double_ge_1)
  have "game_inv (handleNext now m)"
    using assms next_idx next_lvl
    by (auto simp: game_inv_def handleNext_def Let_def split: if_splits)
  moreover have "game_inv (updateGameState 0 1 m)"
    by (simp add: game_inv_def updateGameState_def)
  moreover have "game_inv (handleReset confirmed delete_error m)"
    using assms
    by (auto simp: game_inv_def handleReset_def updateGameState_def split: option.splits if_splits)
  moreover have "game_inv (handleGenerate res m)"
    using assms
    by (auto simp: game_inv_def handleGenerate_def updateGameState_def Let_def
        split: insert_result.splits if_splits)
  ultimately show ?thesis by blast
qed

theorem game_inv_preserved_witness:
  "game_inv (machine2 1 3) \<and>
   game_inv (handleNext ''t1'' (machine2 1 3)) \<and>
   game_inv (updateGameState 0 1 (machine2 1 3)) \<and>
   game_inv (handleReset True None (machine2 1 3)) \<and>
   game_inv (handleGenerate (InsertData [acct0]) (machine2 1 3))"
proof -
  have h: "game_inv (machine2 1 3)"
    by (simp add: game_inv_def machine2_def initialMachine_def)
  show ?thesis
    using h game_inv_preserved [OF h, of "''t1''" True None "InsertData [acct0]"]
    by blast
qed

section \<open>The digest\<close>

lemma upt_from_0: "0 < j \<Longrightarrow> [0..<j] = 0 # [Suc 0..<j]"
  by (simp add: upt_conv_Cons)

lemma upt_from_1: "Suc 0 < j \<Longrightarrow> [Suc 0..<j] = Suc 0 # [2..<j]"
  by (simp add: upt_conv_Cons numeral_2_eq_2)

lemma funpow_times_zero: "((*) k ^^ n) (0::nat) = 0"
  by (induction n) simp_all

lemmas md5_eval =
  digest_md5_def md5_pad_def md5_blocks_def md5_words_def le_word_def le_bytes_def
  upt_from_0 upt_from_1 md5_init_def md5_F_def md5_g_def md5_K_def md5_S_def
  rotl32_def add32_def not32_def funpow_times_zero
  md5_hex_def hex_word_le_def hex_byte_def hex_char_def

lemma md5_empty: "digest_md5 '''' = ''d41d8cd98f00b204e9800998ecf8427e''"
  by (simp add: md5_eval)

lemma md5_abc: "digest_md5 ''abc'' = ''900150983cd24fb0d6963f7d28e17f72''"
  by (simp add: md5_eval)

lemma md5_password: "digest_md5 ''password'' = ''5f4dcc3b5aa765d61d8327deb882cf99''"
  by (simp add: md5_eval)

text \<open>
  Claim C6, as stated, gives \<open>5f4dc92d0c0b6e04f0e0e08d5f5f4b75\<close> for the
  digest of \<open>password\<close>. The algorithm gives another value.
\<close>

theorem digest_md5_password_differs:
  "digest_md5 ''password'' \<noteq> ''5f4dc92d0c0b6e04f0e0e08d5f5f4b75''"
  by (simp add: md5_password)

text \<open>
  Claim C6, amended. The digest of the empty string is
  \<open>d41d8cd98f00b204e9800998ecf8427e\<close>, that of \<open>abc\<close> is
  \<open>900150983cd24fb0d6963f7d28e17f72\<close> and that of \<open>password\<close> is
  \<open>5f4dcc3b5aa765d61d8327deb882cf99\<close>.
\<close>

theorem digest_md5_vectors:
  "digest_md5 '''' = ''d41d8cd98f00b204e9800998ecf8427e'' \<and>
   digest_md5 ''abc'' = ''900150983cd24fb0d6963f7d28e17f72'' \<and>
   digest_md5 ''password'' = ''5f4dcc3b5aa765d61d8327deb882cf99''"
  using md5_empty md5_abc md5_password by blast

lemma hex_char_lower_hex: "n < 16 \<Longrightarrow> is_lower_hex (hex_char n)"
  unfolding hex_char_def is_lower_hex_def by (rule nth_mem) simp

lemma hex_byte_shape: "length (hex_byte b) = 2 \<and> list_all is_lower_hex (hex_byte b)"
  using hex_char_lower_hex [of "b div 16 mod 16"] hex_char_lower_hex [of "b mod 16"]
  by (simp add: hex_byte_def)

lemma hex_word_le_shape: "length (hex_word_le w) = 8 \<and> list_all is_lower_hex (hex_word_le w)"
  using hex_byte_shape by (auto simp: hex_word_le_def le_bytes_def upt_from_0 upt_from_1 list_all_iff)

text \<open>
  Claim C7. For every string the digest has exactly 32 characters, each of
  them one of \<open>0\<close> to \<open>9\<close> or \<open>a\<close> to \<open>f\<close>.
\<close>

theorem digest_md5_shape:
  "length (digest_md5 s) = 32 \<and> list_all is_lower_hex (digest_md5 s)"
proof -
  obtain a b c d where st:
    "foldl md5_block md5_init (md5_blocks (md5_pad (map of_char s))) = (a, b, c, d)"
    by (metis prod_cases4)
  have "digest_md5 s = hex_word_le a @ hex_word_le b @ hex_word_le c @ hex_word_le d"
    by (simp add: digest_md5_def md5_hex_def st)
  then show ?thesis
    using hex_word_le_shape [of a] hex_word_le_shape [of b]
      hex_word_le_shape [of c] hex_word_le_shape [of d]
    by simp
qed

section \<open>The registration bot\<close>

subsection \<open>Facts about the loop body and the loop\<close>

lemma body_accounts:
  "bot_accounts (generation_body e s) =
     resolve_status (gen_id e) (fst (registerAccount (new_account e) (fetch_result e) (posted s)))
       (new_account e # bot_accounts s)"
  by (simp add: generation_body_def Let_def stopGeneration_def new_account_def split: prod.splits)

lemma body_posted:
  "posted (generation_body e s) = posted s @ [registration_payload (new_account e)]"
  by (simp add: generation_body_def Let_def stopGeneration_def registerAccount_def split: prod.splits)

lemma body_shouldStop:
  "shouldStop (generation_body e s) = (shouldStop s \<or> stop_clicked e)"
  by (simp add: generation_body_def Let_def stopGeneration_def split: prod.splits)

lemma length_resolve_status: "length (resolve_status i r prev) = length prev"
  by (simp add: resolve_status_def split: sum.splits)

lemma body_length: "length (bot_accounts (generation_body e s)) = Suc (length (bot_accounts s))"
  by (simp add: body_accounts length_resolve_status)

lemma loop_unfold:
  "i < n \<Longrightarrow> \<not> shouldStop s \<Longrightarrow>
     startGeneration_loop env n i s = startGeneration_loop env n (i + 1) (generation_body (env (nat i)) s)"
  by (subst startGeneration_loop.simps) simp

lemma loop_posted_count:
  "length (posted (startGeneration_loop env n i s)) + length (bot_accounts s) =
   length (posted s) + length (bot_accounts (startGeneration_loop env n i s))"
proof (induction env n i s rule: startGeneration_loop.induct)
  case (1 env n i s)
  show ?case
  proof (cases "i < n \<and> \<not> shouldStop s")
    case True
    then have "startGeneration_loop env n i s =
        startGeneration_loop env n (i + 1) (generation_body (env (nat i)) s)"
      by (simp add: loop_unfold)
    then show ?thesis using True "1.IH" by (simp add: body_length body_posted)
  next
    case False
    then have "startGeneration_loop env n i s = s"
      by (subst startGeneration_loop.simps) auto
    then show ?thesis by simp
  qed
qed

lemma resolve_status_other:
  "id_acc r \<noteq> i \<Longrightarrow> r \<in> set prev \<Longrightarrow> r \<in> set (resolve_status i res prev)"
  by (cases res) (auto simp: resolve_status_def intro!: image_eqI [where x = r])


lemma body_keeps_other:
  "id_acc r \<noteq> gen_id e \<Longrightarrow> r \<in> set (bot_accounts s) \<Longrightarrow> r \<in> set (bot_accounts (generation_body e s))"
  by (simp add: body_accounts resolve_status_other)

lemma loop_keeps_other:
  "0 \<le> i \<Longrightarrow> r \<in> set (bot_accounts s) \<Longrightarrow>
   (\<forall>j. nat i \<le> j \<and> int j < n \<longrightarrow> gen_id (env j) \<noteq> id_acc r) \<Longrightarrow>
   r \<in> set (bot_accounts (startGeneration_loop env n i s))"
proof (induction env n i s rule: startGeneration_loop.induct)
  case (1 env n i s)
  show ?case
  proof (cases "i < n \<and> \<not> shouldStop s")
    case True
    then have unf: "startGeneration_loop env n i s =
        startGeneration_loop env n (i + 1) (generation_body (env (nat i)) s)"
      by (simp add: loop_unfold)
    have "gen_id (env (nat i)) \<noteq> id_acc r"
      using "1.prems" True by simp
    then have "r \<in> set (bot_accounts (generation_body (env (nat i)) s))"
      using "1.prems" by (simp add: body_keeps_other)
    moreover have "\<forall>j. nat (i + 1) \<le> j \<and> int j < n \<longrightarrow> gen_id (env j) \<noteq> id_acc r"
    proof (intro allI impI)
      fix j assume j: "nat (i + 1) \<le> j \<and> int j < n"
      then have "nat i \<le> j" by linarith
      with j "1.prems"(3) show "gen_id (env j) \<noteq> id_acc r" by blast
    qed
    ultimately have "r \<in> set (bot_accounts (startGeneration_loop env n (i + 1) (generation_body (env (nat i)) s)))"
      using "1.IH" "1.prems"(1) True by simp
    then show ?thesis using unf by simp
  next
    case False
    then have "startGeneration_loop env n i s = s"
      by (subst startGeneration_loop.simps) auto
    then show ?thesis using "1.prems" by simp
  qed
qed

lemma body_head:
  "hd (bot_accounts (generation_body e s)) =
     (case fst (registerAccount (new_account e) (fetch_result e) (posted s)) of
        Inr u \<Rightarrow> (new_account e)\<lparr>status := SUCCESS\<rparr>
      | Inl err \<Rightarrow> (new_account e)\<lparr>status := ERROR, errorMessage := Some (message err)\<rparr>)"
  by (simp add: body_accounts resolve_status_def new_account_def split: sum.splits)



subsection \<open>The registration request\<close>

text \<open>
  Claim C3. \<open>registerAccount\<close> throws exactly when the fetch is rejected,
  the response is not ok, or its body does not parse. An ok response whose
  body parses makes it return normally whatever the body is, also with a
  \<open>code\<close> other than 200 and 0, and the record of that iteration is then
  marked \<open>SUCCESS\<close>.
\<close>

theorem registerAccount_raises_iff:
  "((\<exists>err. fst (registerAccount acc outcome net) = Inl err) \<longleftrightarrow>
      (case outcome of
         FetchRejected err \<Rightarrow> True
       | FetchResponse is_ok st body \<Rightarrow> \<not> is_ok \<or> isl body)) \<and>
   fst (registerAccount acc (FetchResponse True st (Inr data)) net) = Inr () \<and>
   status (hd (bot_accounts
     (generation_body (e\<lparr>fetch_result := FetchResponse True st (Inr data)\<rparr>) s))) = SUCCESS"
  by (auto simp: registerAccount_def body_accounts resolve_status_def new_account_def
      split: fetch_outcome.splits sum.splits)

theorem registerAccount_raises_iff_witness:
  "fetch_result env_code500 = FetchResponse True 200 (Inr (JObject [(''code'', JNumber 500)])) \<and>
   truthy (JObject [(''code'', JNumber 500)]) \<and>
   code_is_failure (JObject [(''code'', JNumber 500)]) \<and>
   \<not> (\<exists>err. fst (registerAccount (new_account env_code500) (fetch_result env_code500) []) = Inl err) \<and>
   fst (registerAccount (new_account env_code500) (fetch_result env_code500) []) = Inr () \<and>
   status (hd (bot_accounts (generation_body env_code500 bot0))) = SUCCESS"
  using registerAccount_raises_iff [of "new_account env_code500" "fetch_result env_code500" "[]"
      200 "JObject [(''code'', JNumber 500)]" env_code500 bot0]
  by (simp add: env_code500_def)

subsection \<open>Failed requests\<close>

text \<open>
  Claim C4. When the request of iteration \<open>i\<close> fails with error \<open>err\<close>, the
  record of that iteration gets status \<open>ERROR\<close> and the message of \<open>err\<close> as
  its \<open>errorMessage\<close>; exactly one request has been sent for it; the loop goes
  on with iteration \<open>i + 1\<close>, which creates the next record unless the target
  count is reached or stop was clicked; the failed record is in the list
  when the loop ends, provided later iterations draw other ids; and over the
  whole loop as many requests are sent as records are created.
\<close>

theorem failed_registration_recorded:
  assumes "0 \<le> i" and "i < n" and "\<not> shouldStop s"
    and "fst (registerAccount (new_account (env (nat i))) (fetch_result (env (nat i))) (posted s)) = Inl err"
  shows "hd (bot_accounts (generation_body (env (nat i)) s)) =
           (new_account (env (nat i)))\<lparr>status := ERROR, errorMessage := Some (message err)\<rparr> \<and>
         posted (generation_body (env (nat i)) s) =
           posted s @ [registration_payload (new_account (env (nat i)))] \<and>
         startGeneration_loop env n i s =
           startGeneration_loop env n (i + 1) (generation_body (env (nat i)) s) \<and>
         (i + 1 < n \<and> \<not> stop_clicked (env (nat i)) \<longrightarrow>
            startGeneration_loop env n i s =
              startGeneration_loop env n (i + 2)
                (generation_body (env (nat (i + 1))) (generation_body (env (nat i)) s)) \<and>
            id_acc (hd (bot_accounts
              (generation_body (env (nat (i + 1))) (generation_body (env (nat i)) s)))) =
              gen_id (env (nat (i + 1)))) \<and>
         ((\<forall>j. nat (i + 1) \<le> j \<and> int j < n \<longrightarrow> gen_id (env j) \<noteq> gen_id (env (nat i))) \<longrightarrow>
            (new_account (env (nat i)))\<lparr>status := ERROR, errorMessage := Some (message err)\<rparr>
              \<in> set (bot_accounts (startGeneration_loop env n i s))) \<and>
         length (posted (startGeneration_loop env n i s)) + length (bot_accounts s) =
           length (posted s) + length (bot_accounts (startGeneration_loop env n i s))"
proof -
  let ?e = "env (nat i)"
  let ?s1 = "generation_body ?e s"
  let ?r = "(new_account ?e)\<lparr>status := ERROR, errorMessage := Some (message err)\<rparr>"
  have hd1: "hd (bot_accounts ?s1) = ?r"
    using assms(4) by (simp add: body_head)
  have unf: "startGeneration_loop env n i s = startGeneration_loop env n (i + 1) ?s1"
    using assms by (simp add: loop_unfold)
  have nxt: "startGeneration_loop env n i s =
        startGeneration_loop env n (i + 2) (generation_body (env (nat (i + 1))) ?s1)"
    if "i + 1 < n" "\<not> stop_clicked ?e"
  proof -
    have "\<not> shouldStop ?s1"
      using assms(3) that by (simp add: body_shouldStop)
    then have "startGeneration_loop env n (i + 1) ?s1 =
        startGeneration_loop env n (i + 1 + 1) (generation_body (env (nat (i + 1))) ?s1)"
      using that loop_unfold [of "i + 1" n ?s1 env] by blast
    moreover have "i + 1 + 1 = i + 2" by simp
    ultimately show ?thesis using unf by (simp only:)
  qed
  have idn: "id_acc (hd (bot_accounts (generation_body (env (nat (i + 1))) ?s1))) =
      gen_id (env (nat (i + 1)))"
    by (simp add: body_head new_account_def split: sum.splits)
  have fin: "?r \<in> set (bot_accounts (startGeneration_loop env n i s))"
    if "\<forall>j. nat (i + 1) \<le> j \<and> int j < n \<longrightarrow> gen_id (env j) \<noteq> gen_id ?e"
  proof -
    have "bot_accounts ?s1 \<noteq> []"
      using body_length [of ?e s] by auto
    then have "?r \<in> set (bot_accounts ?s1)"
      using hd1 hd_in_set by metis
    moreover have "id_acc ?r = gen_id ?e"
      by (simp add: new_account_def)
    ultimately have "?r \<in> set (bot_accounts (startGeneration_loop env n (i + 1) ?s1))"
      using that assms(1) loop_keeps_other [of "i + 1" ?r ?s1 n env] by simp
    then show ?thesis using unf by simp
  qed
  show ?thesis
    using hd1 unf nxt idn fin loop_posted_count [of env n i s] by (simp add: body_posted)
qed

lemma string_of_int_503: "string_of_int 503 = ''503''"
  by (simp add: string_of_int_def string_of_nat.simps digit_char_def)

theorem failed_registration_recorded_witness:
  "(0::int) \<le> 0 \<and> (0::int) < 3 \<and> \<not> shouldStop bot0 \<and>
   fst (registerAccount (new_account env_http503) (fetch_result env_http503) (posted bot0)) =
     Inl (Error ''HTTP 503'') \<and>
   hd (bot_accounts (generation_body env_http503 bot0)) =
     (new_account env_http503)\<lparr>status := ERROR, errorMessage := Some ''HTTP 503''\<rparr> \<and>
   posted (generation_body env_http503 bot0) =
     posted bot0 @ [registration_payload (new_account env_http503)] \<and>
   startGeneration_loop script_fail_first 3 0 bot0 =
     startGeneration_loop script_fail_first 3 (0 + 2)
       (generation_body env_code500 (generation_body env_http503 bot0)) \<and>
   (new_account env_http503)\<lparr>status := ERROR, errorMessage := Some ''HTTP 503''\<rparr>
     \<in> set (bot_accounts (startGeneration_loop script_fail_first 3 0 bot0))"
proof -
  have s0: "script_fail_first (nat 0) = env_http503" "script_fail_first (nat (0 + 1)) = env_code500"
    by (simp_all add: script_fail_first_def)
  have m: "message (Error ''HTTP 503'') = ''HTTP 503''"
    by simp
  have a1: "(0::int) \<le> 0" and a2: "(0::int) < 3"
    by simp_all
  have a3: "\<not> shouldStop bot0"
    by (simp add: bot0_def)
  have f: "fst (registerAccount (new_account env_http503) (fetch_result env_http503) (posted bot0)) =
      Inl (Error ''HTTP 503'')"
    by (simp add: env_http503_def registerAccount_def string_of_int_503)
  have go: "(0::int) + 1 < 3 \<and> \<not> stop_clicked env_http503"
    by (simp add: env_http503_def)
  have ids: "\<forall>j. nat (0 + 1) \<le> j \<and> int j < 3 \<longrightarrow>
      gen_id (script_fail_first j) \<noteq> gen_id env_http503"
    by (simp add: script_fail_first_def env_http503_def env_code500_def)
  note t = failed_registration_recorded [of 0 3 bot0 script_fail_first "Error ''HTTP 503''",
      unfolded s0 m, OF a1 a2 a3 f]
  show ?thesis
    using a1 a2 a3 f go ids t by blast
qed

subsection \<open>Bound and stop flag\<close>

lemma stop_flag_ends_call:
  assumes "shouldStop (bot sys)" and "k < length (calls sys)" and "call_phase (calls sys ! k) = Delaying"
  shows "bot_accounts (bot (delay_done k e sys)) = bot_accounts (bot sys) \<and>
         call_phase (calls (delay_done k e sys) ! k) = Returned"
  using assms by (simp add: delay_done_def enter_iteration_def Let_def)

lemma request_done_keeps_length:
  "length (bot_accounts (bot (request_done k outcome sys))) = length (bot_accounts (bot sys))"
  by (simp add: request_done_def length_resolve_status Let_def split: call_phase.splits prod.splits)

lemma js_add_0_1: "js_add 0 1 = 1"
  by (simp add: js_add_def round_double_exact)

text \<open>
  Claim C5 on the code. The first call is started with target count 3 and
  stop is clicked while its first request is pending: the flag is set. Left
  alone, the call reads the flag at the head of its next iteration and returns
  with the one record it had created. When start is clicked again before
  that, line 50 resets the flag, and the first call, resumed, creates a
  further record (\<open>id3\<close>) after the stop flag had been set; the claim says it
  creates none.
\<close>

theorem stop_then_restart_resumes_first_call:
  "shouldStop (bot (run_events [StartClick env_http503, StopClick] system0)) \<and>
   map id_acc (bot_accounts (bot (run_events [StartClick env_http503, StopClick] system0))) = [''id2''] \<and>
   map id_acc (bot_accounts (bot (run_events clicks_stop system0))) = [''id2''] \<and>
   call_phase (calls (run_events clicks_stop system0) ! 0) = Returned \<and>
   map id_acc (bot_accounts (bot (run_events clicks_stop_restart system0))) = [''id3'', ''id1'', ''id2''] \<and>
   call_phase (calls (run_events clicks_stop_restart system0) ! 0) = Requesting (new_account env_third) \<and>
   call_i (calls (run_events clicks_stop_restart system0) ! 0) = 1"
  by (simp add: run_events_def clicks_stop_def clicks_stop_restart_def system0_def bot0_def
      startGeneration_def enter_iteration_def request_done_def delay_done_def stopGeneration_def
      registerAccount_def resolve_status_def new_account_def env_http503_def env_code500_def
      env_third_def js_add_0_1 Let_def)

subsection \<open>What the resolution of a request changes\<close>






subsection \<open>Stored account lists\<close>

lemma hex_val_hex_char_all: "list_all (\<lambda>k. hex_val (hex_char k) = Some k) [0..<16]"
  by (simp add: upt_from_0 upt_from_1 hex_val_def hex_char_def)

lemma hex_val_hex_char: "k < 16 \<Longrightarrow> hex_val (hex_char k) = Some k"
  using hex_val_hex_char_all by (simp add: list_all_iff)

lemma backslash_not_dquote: "backslash \<noteq> dquote"
  by (simp add: backslash_def dquote_def)

lemma parse_chars_control:
  assumes "(of_char c :: nat) < 32"
  shows "parse_chars (backslash # CHR ''u'' # hex4 (of_char c) @ rest) = cons_result c (parse_chars rest)"
proof -
  let ?n = "of_char c :: nat"
  have d: "?n div 4096 mod 16 = 0" "?n div 256 mod 16 = 0" "?n div 16 mod 16 = ?n div 16"
    using assms by simp_all
  have v: "hex_val (hex_char 0) = Some 0" "hex_val (hex_char (?n div 16)) = Some (?n div 16)"
    "hex_val (hex_char (?n mod 16)) = Some (?n mod 16)"
    using assms by (simp_all add: hex_val_hex_char)
  have "char_of ?n = c"
    by simp
  then show ?thesis
    using assms by (simp add: hex4_def d v backslash_not_dquote)
qed

lemma parse_chars_escape:
  "e \<noteq> CHR ''u'' \<Longrightarrow> unescape e = Some d \<Longrightarrow>
     parse_chars (backslash # e # rest) = cons_result d (parse_chars rest)"
  by (simp add: backslash_not_dquote)

lemma parse_chars_plain:
  "c \<noteq> dquote \<Longrightarrow> c \<noteq> backslash \<Longrightarrow> \<not> (of_char c :: nat) < 32 \<Longrightarrow>
     parse_chars (c # rest) = cons_result c (parse_chars rest)"
  by simp

lemma unescape_short:
  "unescape dquote = Some dquote" "unescape backslash = Some backslash"
  "unescape CHR ''b'' = Some (CHR 0x08)" "unescape CHR ''t'' = Some (CHR 0x09)"
  "unescape CHR ''n'' = Some (CHR 0x0A)" "unescape CHR ''f'' = Some (CHR 0x0C)"
  "unescape CHR ''r'' = Some (CHR 0x0D)"
  by (simp_all add: unescape_def dquote_def backslash_def)

lemma not_u: "dquote \<noteq> CHR ''u''" "backslash \<noteq> CHR ''u''"
  by (simp_all add: dquote_def backslash_def)

lemma parse_chars_quote_char:
  "parse_chars (quote_char c @ rest) = cons_result c (parse_chars rest)"
proof -
  consider (dq) "c = dquote" | (bs) "c = backslash" | (b) "c = CHR 0x08" | (t) "c = CHR 0x09"
    | (n) "c = CHR 0x0A" | (f) "c = CHR 0x0C" | (r) "c = CHR 0x0D"
    | (ctl) "c \<noteq> dquote" "c \<noteq> backslash" "c \<noteq> CHR 0x08" "c \<noteq> CHR 0x09" "c \<noteq> CHR 0x0A"
        "c \<noteq> CHR 0x0C" "c \<noteq> CHR 0x0D" "(of_char c :: nat) < 32"
    | (plain) "c \<noteq> dquote" "c \<noteq> backslash" "c \<noteq> CHR 0x08" "c \<noteq> CHR 0x09" "c \<noteq> CHR 0x0A"
        "c \<noteq> CHR 0x0C" "c \<noteq> CHR 0x0D" "\<not> (of_char c :: nat) < 32"
    by blast
  then show ?thesis
  proof cases
    case dq
    then have "quote_char c @ rest = backslash # dquote # rest"
      by (simp add: quote_char_def)
    then show ?thesis
      using dq parse_chars_escape [OF not_u(1) unescape_short(1)] by simp
  next
    case bs
    then have "quote_char c @ rest = backslash # backslash # rest"
      by (simp add: quote_char_def backslash_not_dquote)
    then show ?thesis
      using bs parse_chars_escape [OF not_u(2) unescape_short(2)] by simp
  next
    case b
    then have "quote_char c @ rest = backslash # CHR ''b'' # rest"
      by (simp add: quote_char_def backslash_def dquote_def)
    then show ?thesis
      using b parse_chars_escape [OF _ unescape_short(3)] by simp
  next
    case t
    then have "quote_char c @ rest = backslash # CHR ''t'' # rest"
      by (simp add: quote_char_def backslash_def dquote_def)
    then show ?thesis
      using t parse_chars_escape [OF _ unescape_short(4)] by simp
  next
    case n
    then have "quote_char c @ rest = backslash # CHR ''n'' # rest"
      by (simp add: quote_char_def backslash_def dquote_def)
    then show ?thesis
      using n parse_chars_escape [OF _ unescape_short(5)] by simp
  next
    case f
    then have "quote_char c @ rest = backslash # CHR ''f'' # rest"
      by (simp add: quote_char_def backslash_def dquote_def)
    then show ?thesis
      using f parse_chars_escape [OF _ unescape_short(6)] by simp
  next
    case r
    then have "quote_char c @ rest = backslash # CHR ''r'' # rest"
      by (simp add: quote_char_def backslash_def dquote_def)
    then show ?thesis
      using r parse_chars_escape [OF _ unescape_short(7)] by simp
  next
    case ctl
    then have "quote_char c @ rest = backslash # CHR ''u'' # hex4 (of_char c) @ rest"
      by (simp add: quote_char_def)
    then show ?thesis
      using parse_chars_control [OF ctl(8)] by (simp only:)
  next
    case plain
    then have "quote_char c @ rest = c # rest"
      by (simp add: quote_char_def)
    then show ?thesis
      using parse_chars_plain [OF plain(1) plain(2) plain(8)] by (simp only:)
  qed
qed

lemma parse_chars_quoted:
  "parse_chars (concat (map quote_char s) @ dquote # rest) = Some (s, rest)"
proof (induction s)
  case Nil
  show ?case by simp
next
  case (Cons c s)
  have "parse_chars (concat (map quote_char (c # s)) @ dquote # rest) =
      parse_chars (quote_char c @ (concat (map quote_char s) @ dquote # rest))"
    by simp
  also have "\<dots> = cons_result c (parse_chars (concat (map quote_char s) @ dquote # rest))"
    by (rule parse_chars_quote_char)
  also have "\<dots> = Some (c # s, rest)"
    by (simp add: Cons.IH cons_result_def)
  finally show ?case .
qed

lemma skip_ws_no_ws: "\<not> is_ws c \<Longrightarrow> skip_ws (c # cs) = c # cs"
  by (simp add: skip_ws_def)

lemma not_ws: "\<not> is_ws dquote" "\<not> is_ws CHR '':''" "\<not> is_ws CHR '',''" "\<not> is_ws CHR ''}''"
  "\<not> is_ws CHR '']''" "\<not> is_ws CHR ''{''" "\<not> is_ws CHR ''[''"
  by (simp_all add: is_ws_def dquote_def)

lemma parse_value_string:
  "parse_value (Suc n) (quote s @ rest) = Some (JString s, rest)"
proof -
  have "quote s @ rest = dquote # (concat (map quote_char s) @ dquote # rest)"
    by (simp add: quote_def)
  then show ?thesis
    using parse_chars_quoted [of s rest] by (simp add: skip_ws_no_ws not_ws del: parse_chars.simps)
qed

lemma skip_ws_quote:
  "skip_ws (quote k @ rest) = dquote # (concat (map quote_char k) @ dquote # rest)"
  by (simp add: quote_def skip_ws_no_ws not_ws)

lemma parse_members_step:
  assumes "\<not> is_ws c"
  shows "parse_members (Suc (Suc n)) (quote k @ CHR '':'' # quote s @ c # cs) =
     (if c = CHR '','' then
        (case parse_members (Suc n) cs of
           None \<Rightarrow> None
         | Some (kvs, r) \<Rightarrow> Some ((k, JString s) # kvs, r))
      else if c = CHR ''}'' then Some ([(k, JString s)], cs)
      else None)"
  using assms
  by (simp add: skip_ws_quote parse_chars_quoted skip_ws_no_ws not_ws parse_value_string
      del: parse_chars.simps parse_value.simps)

lemma parse_members_strings:
  "props \<noteq> [] \<Longrightarrow> length props < f \<Longrightarrow>
   parse_members f (stringify_members (string_members props) @ CHR ''}'' # rest) =
     Some (string_members props, rest)"
proof (induction props arbitrary: f)
  case Nil
  then show ?case by simp
next
  case (Cons kv props)
  obtain k s where kv: "kv = (k, s)"
    by (cases kv)
  from Cons.prems obtain n where f: "f = Suc (Suc n)" and n: "length props \<le> n"
    by (cases f; cases "f - 1") auto
  show ?case
  proof (cases props)
    case Nil
    then show ?thesis
      using parse_members_step [of "CHR ''}''" n k s rest]
      by (simp add: kv f string_members_def not_ws)
  next
    case (Cons kv' more)
    obtain k' s' where kv': "kv' = (k', s')"
      by (cases kv')
    have ih: "parse_members (Suc n) (stringify_members (string_members props) @ CHR ''}'' # rest) =
        Some (string_members props, rest)"
      using Cons.IH [of "Suc n"] n Cons by simp
    have "stringify_members (string_members (kv # props)) @ CHR ''}'' # rest =
        quote k @ CHR '':'' # quote s @ CHR '','' #
          (stringify_members (string_members props) @ CHR ''}'' # rest)"
      by (simp add: kv kv' Cons string_members_def)
    then show ?thesis
      using parse_members_step [of "CHR '',''" n k s
          "stringify_members (string_members props) @ CHR ''}'' # rest"] ih
      by (simp add: f not_ws kv string_members_def)
  qed
qed

lemma stringify_members_starts:
  "props \<noteq> [] \<Longrightarrow> \<exists>t. stringify_members (string_members props) = dquote # t"
proof (cases props)
  case Nil
  assume "props \<noteq> []"
  with Nil show ?thesis by simp
next
  case (Cons kv more)
  obtain k s where kv: "kv = (k, s)"
    by (cases kv)
  show ?thesis
    by (cases more) (auto simp: Cons kv string_members_def quote_def)
qed

lemma dquote_neq:
  "CHR ''{'' \<noteq> dquote" "CHR ''['' \<noteq> dquote" "dquote \<noteq> CHR ''}''" "dquote \<noteq> CHR '']''"
  "CHR ''{'' \<noteq> CHR '']''"
  by (simp_all add: dquote_def)

lemma parse_value_object:
  assumes "props \<noteq> []" and "length props < n"
  shows "parse_value (Suc n) (JSON_stringify (JObject (string_members props)) @ rest) =
     Some (JObject (string_members props), rest)"
proof -
  obtain t where t: "stringify_members (string_members props) = dquote # t"
    using stringify_members_starts [OF assms(1)] by blast
  have m: "parse_members n (dquote # t @ CHR ''}'' # rest) = Some (string_members props, rest)"
    using parse_members_strings [OF assms, of rest] by (simp add: t)
  show ?thesis
    using m by (simp add: t skip_ws_no_ws not_ws dquote_neq del: parse_chars.simps)
qed

lemma account_fields_size: "account_fields a \<noteq> [] \<and> length (account_fields a) \<le> 7"
  by (simp add: account_fields_def split: option.splits)

lemma parse_elements_step:
  assumes "\<not> is_ws c" and "length (account_fields a) < n"
  shows "parse_elements (Suc (Suc n)) (JSON_stringify (json_of_account a) @ c # cs) =
     (if c = CHR '','' then
        (case parse_elements (Suc n) cs of
           None \<Rightarrow> None
         | Some (vs, r) \<Rightarrow> Some (json_of_account a # vs, r))
      else if c = CHR '']'' then Some ([json_of_account a], cs)
      else None)"
proof -
  have "parse_value (Suc n) (JSON_stringify (json_of_account a) @ c # cs) =
      Some (json_of_account a, c # cs)"
    unfolding json_of_account_def
    using account_fields_size [of a] assms(2) by (intro parse_value_object) simp_all
  then show ?thesis
    using assms(1) by (simp add: skip_ws_no_ws del: parse_value.simps JSON_stringify.simps)
qed

lemma parse_elements_accounts:
  "accs \<noteq> [] \<Longrightarrow> length accs + 8 < f \<Longrightarrow>
   parse_elements f (stringify_elements (map json_of_account accs) @ CHR '']'' # rest) =
     Some (map json_of_account accs, rest)"
proof (induction accs arbitrary: f)
  case Nil
  then show ?case by simp
next
  case (Cons a accs)
  from Cons.prems obtain n where f: "f = Suc (Suc n)" and n: "length accs + 8 \<le> n"
    by (cases f; cases "f - 1") auto
  have small: "length (account_fields a) < n"
    using account_fields_size [of a] n by linarith
  show ?case
  proof (cases accs)
    case Nil
    then show ?thesis
      using parse_elements_step [OF not_ws(5) small, of rest]
      by (simp add: f del: parse_elements.simps JSON_stringify.simps)
  next
    case (Cons b more)
    have ih: "parse_elements (Suc n) (stringify_elements (map json_of_account accs) @ CHR '']'' # rest) =
        Some (map json_of_account accs, rest)"
      using Cons.IH [of "Suc n"] n Cons by simp
    have "stringify_elements (map json_of_account (a # accs)) @ CHR '']'' # rest =
        JSON_stringify (json_of_account a) @ CHR '','' #
          (stringify_elements (map json_of_account accs) @ CHR '']'' # rest)"
      by (simp add: Cons del: JSON_stringify.simps)
    then show ?thesis
      using parse_elements_step [OF not_ws(3) small,
          of "stringify_elements (map json_of_account accs) @ CHR '']'' # rest"] ih
      by (simp add: f del: parse_elements.simps JSON_stringify.simps)
  qed
qed

lemma stringify_account_starts:
  "\<exists>t. JSON_stringify (json_of_account a) = CHR ''{'' # t"
  by (simp add: json_of_account_def)

lemma stringify_elements_starts:
  "accs \<noteq> [] \<Longrightarrow> \<exists>t. stringify_elements (map json_of_account accs) = CHR ''{'' # t"
proof (cases accs)
  case Nil
  assume "accs \<noteq> []"
  with Nil show ?thesis by simp
next
  case (Cons a more)
  obtain t where "JSON_stringify (json_of_account a) = CHR ''{'' # t"
    using stringify_account_starts by blast
  then show ?thesis
    by (cases more) (simp_all add: Cons del: JSON_stringify.simps)
qed

lemma parse_value_accounts:
  assumes "length accs + 9 < f"
  shows "parse_value f (JSON_stringify (json_of_accounts accs) @ rest) =
     Some (json_of_accounts accs, rest)"
proof -
  from assms obtain n where f: "f = Suc n" and n: "length accs + 8 < n"
    by (cases f) auto
  show ?thesis
  proof (cases "accs = []")
    case True
    then show ?thesis
      by (simp add: f json_of_accounts_def skip_ws_no_ws not_ws dquote_neq)
  next
    case False
    obtain t where t: "stringify_elements (map json_of_account accs) = CHR ''{'' # t"
      using stringify_elements_starts [OF False] by blast
    have "parse_elements n (CHR ''{'' # t @ CHR '']'' # rest) = Some (map json_of_account accs, rest)"
      using parse_elements_accounts [OF False n, of rest] by (simp add: t)
    then show ?thesis
      by (simp add: f json_of_accounts_def t skip_ws_no_ws not_ws dquote_neq
          del: parse_elements.simps)
  qed
qed

lemma length_quote: "2 \<le> length (quote s)"
  by (simp add: quote_def)

lemma length_stringify_members:
  "5 * length props \<le> length (stringify_members (string_members props))"
proof (induction props rule: induct_list012)
  case 1
  show ?case by (simp add: string_members_def)
next
  case (2 kv)
  obtain k s where "kv = (k, s)"
    by (cases kv)
  then show ?case
    using length_quote [of k] length_quote [of s] by (simp add: string_members_def)
next
  case (3 kv kv' props)
  obtain k s where kv: "kv = (k, s)"
    by (cases kv)
  obtain k' s' where kv': "kv' = (k', s')"
    by (cases kv')
  show ?case
    using 3(2) length_quote [of k] length_quote [of s]
    by (simp add: string_members_def kv kv')
qed

lemma length_stringify_account: "20 \<le> length (JSON_stringify (json_of_account a))"
proof -
  have "6 \<le> length (account_fields a)"
    by (simp add: account_fields_def split: option.splits)
  then have "30 \<le> length (stringify_members (string_members (account_fields a)))"
    using length_stringify_members [of "account_fields a"] by linarith
  then show ?thesis
    by (simp add: json_of_account_def)
qed

lemma length_stringify_elements:
  "20 * length accs \<le> length (stringify_elements (map json_of_account accs))"
proof (induction accs rule: induct_list012)
  case 1
  show ?case by simp
next
  case (2 a)
  show ?case using length_stringify_account [of a] by (simp del: JSON_stringify.simps)
next
  case (3 a b accs)
  then show ?case
    using length_stringify_account [of a] by (simp del: JSON_stringify.simps)
qed

lemma JSON_parse_stringify_accounts:
  "JSON_parse (JSON_stringify (json_of_accounts accs)) = Some (json_of_accounts accs)"
proof (cases "accs = []")
  case True
  then show ?thesis
    by (simp add: JSON_parse_def json_of_accounts_def skip_ws_def skip_ws_no_ws not_ws dquote_neq
        numeral_2_eq_2)
next
  case False
  let ?text = "JSON_stringify (json_of_accounts accs)"
  have "length ?text = 2 + length (stringify_elements (map json_of_account accs))"
    by (simp add: json_of_accounts_def)
  moreover have "1 \<le> length accs"
    using False by (cases accs) simp_all
  ultimately have "length accs + 9 < length ?text"
    using length_stringify_elements [of accs] by linarith
  then have "parse_value (length ?text) (?text @ []) = Some (json_of_accounts accs, [])"
    by (rule parse_value_accounts)
  then show ?thesis
    by (simp add: JSON_parse_def skip_ws_def)
qed

lemma status_of_string_inverse: "status_of_string (status_string st) = Some st"
  by (cases st) (simp_all add: status_of_string_def status_string_def)

lemma account_of_json_inverse: "account_of_json (json_of_account a) = Some a"
  by (cases a; cases "errorMessage a")
    (simp_all add: account_of_json_def json_of_account_def account_fields_def string_members_def
      string_field_def status_of_string_inverse)

lemma accounts_of_json_inverse: "accounts_of_json (json_of_accounts accs) = Some accs"
proof -
  have "those (map account_of_json (map json_of_account accs)) = Some accs"
    by (induction accs) (simp_all add: account_of_json_inverse)
  then show ?thesis
    by (simp add: accounts_of_json_def json_of_accounts_def)
qed

lemma stringify_accounts_not_empty: "JSON_stringify (json_of_accounts accs) \<noteq> []"
  by (simp add: json_of_accounts_def)

text \<open>
  Claim C10. The save effect stores the list as JSON text under the key
  \<open>z_autoreg_accounts\<close>, and the load effect of a later mount, which reads
  that key and parses the text, restores exactly the list that was saved.
\<close>

theorem load_after_save:
  "save_accounts accs st storage_key = Some (JSON_stringify (json_of_accounts accs)) \<and>
   storage_key = ''z_autoreg_accounts'' \<and>
   JSON_parse (JSON_stringify (json_of_accounts accs)) = Some (json_of_accounts accs) \<and>
   load_accounts (save_accounts accs st) = Loaded accs \<and>
   fst (mount_effects (save_accounts accs st)) = Loaded accs"
  by (simp add: save_accounts_def load_accounts_def mount_effects_def storage_key_def
      stringify_accounts_not_empty JSON_parse_stringify_accounts accounts_of_json_inverse)

end
